theory Spec2Isabelle
  imports Main "HOL-Library.Word" "HOL-Library.Char_ord"
begin

section \<open>Data model of the packet sniffer (include/PacketSniffer.h, src/PacketSniffer.c)\<close>

text \<open>
  The program is the thread-safe sniffer of src/PacketSniffer.c with its header
  include/PacketSniffer.h; line numbers are those of src/PacketSniffer.c. (The older
  PacketSniffer.c at the root of the repository has no mutex and no checks and is not
  modelled.)

  Pointers are modelled as options, \<open>None\<close> being the C null pointer. An engine handle
  (\<open>pcap_t *\<close>) and a handler (a function pointer) are identified by a number. A device
  name (\<open>const char *\<close>) is the string of its characters before the terminating NUL, so
  that \<open>strlen\<close> is \<open>length\<close>.
\<close>

type_synonym u_char = "8 word"
type_synonym pcap_t = nat
type_synonym PacketHandler = nat

datatype SniffResult =
    SNIFF_OK
  | SNIFF_ERROR_NULL_PARAM
  | SNIFF_ERROR_INVALID_DEVICE
  | SNIFF_ERROR_ALREADY_RUNNING
  | SNIFF_ERROR_PCAP_OPEN
  | SNIFF_ERROR_NOT_RUNNING

definition MAX_PACKET_SIZE :: int where
  "MAX_PACKET_SIZE = 64 * 1024"

text \<open>
  The two length fields of \<open>struct pcap_pkthdr\<close> (both \<open>bpf_u_int32\<close>): \<open>caplen\<close> is the
  number of bytes present in the buffer, \<open>len\<close> the length the frame had on the wire.
  The time stamp is never read by the program.
\<close>

record pcap_pkthdr =
  caplen :: "32 word"
  len :: "32 word"

text \<open>The three static variables of src/PacketSniffer.c (lines 9 to 12).\<close>

record sniffer =
  handle :: "pcap_t option"
  globalHandler :: "PacketHandler option"
  is_running :: bool

definition idle :: sniffer where
  "idle = \<lparr>handle = None, globalHandler = None, is_running = False\<rparr>"

section \<open>Validator\<close>

text \<open>Lines 15 to 17. The argument is a C \<open>int\<close>; callers convert with \<open>sint\<close>.\<close>

definition is_valid_packet_length :: "int \<Rightarrow> bool" where
  "is_valid_packet_length n = (n > 0 \<and> n \<le> MAX_PACKET_SIZE)"

text \<open>
  The character test of lines 68 to 71 (the source negates it). The ranges lie inside
  ASCII, so the signedness of C's \<open>char\<close> makes no difference: a byte above 127 fails
  every range either way.
\<close>

definition allowed_char :: "char \<Rightarrow> bool" where
  "allowed_char c =
     ((c \<ge> CHR ''a'' \<and> c \<le> CHR ''z'') \<or>
      (c \<ge> CHR ''A'' \<and> c \<le> CHR ''Z'') \<or>
      (c \<ge> CHR ''0'' \<and> c \<le> CHR ''9'') \<or>
      c = CHR ''.'' \<or> c = CHR ''-'' \<or> c = CHR ''_'')"

text \<open>The loop of lines 66 to 74: it returns false at the first character that fails.\<close>

fun scan_device :: "string \<Rightarrow> bool" where
  "scan_device [] = True"
| "scan_device (c # cs) = (if \<not> allowed_char c then False else scan_device cs)"

text \<open>Lines 52 to 77.\<close>

definition is_valid_device_name :: "string option \<Rightarrow> bool" where
  "is_valid_device_name device =
     (case device of
        None \<Rightarrow> False
      | Some d \<Rightarrow>
          (let n = length d in
           if n = 0 \<or> n > 64 then False
           else scan_device d))"

text \<open>
  The alphabet in the words of the specification: ASCII letters, digits, dot, dash and
  underscore, written out character by character.
\<close>

definition device_alphabet :: "char list" where
  "device_alphabet =
     ''abcdefghijklmnopqrstuvwxyz'' @ ''ABCDEFGHIJKLMNOPQRSTUVWXYZ'' @ ''0123456789'' @ ''.-_''"

section \<open>What the program does to the outside world\<close>

text \<open>The diagnostics written to stderr, one constructor for each \<open>fprintf\<close> of the source.\<close>

datatype diag =
    NullDevice
  | NullHandler
  | BadDeviceName
  | AlreadyActive
  | OpenFailed string
  | BadPacketLength int
  | ShortCapture "32 word" "32 word"
  | LoopError string

text \<open>The places where the source releases \<open>state_mutex\<close>, by source line.\<close>

datatype unlock_site =
    U_callback          \<comment> \<open>line 43, packet_callback\<close>
  | U_already_running   \<comment> \<open>line 101, start_sniffing\<close>
  | U_claimed           \<comment> \<open>line 109, start_sniffing\<close>
  | U_open_failed       \<comment> \<open>line 122, start_sniffing\<close>
  | U_marked            \<comment> \<open>line 132, start_sniffing\<close>
  | U_teardown          \<comment> \<open>line 158, start_sniffing\<close>
  | U_stop_idle         \<comment> \<open>line 167, stop_sniffing\<close>
  | U_stop              \<comment> \<open>line 177, stop_sniffing\<close>
  | U_is_active         \<comment> \<open>line 185, is_sniffing_active\<close>

text \<open>
  Everything the program does besides updating its three variables is recorded, in
  order, as a list of events: the diagnostics, the calls into the capture engine
  (libpcap), the calls of the registered handler with the arguments it receives, and
  every release of the mutex together with the state that becomes visible there.
\<close>

datatype event =
    Stderr diag
  | PcapOpenLive string
  | PcapLoop "pcap_t option"
  | PcapBreakloop "pcap_t option"
  | PcapGeterr "pcap_t option"
  | PcapClose "pcap_t option"
  | HandlerCall PacketHandler "u_char list" int
  | Unlock unlock_site sniffer

fun is_engine_call :: "event \<Rightarrow> bool" where
  "is_engine_call (PcapOpenLive d) = True"
| "is_engine_call (PcapLoop p) = True"
| "is_engine_call (PcapBreakloop p) = True"
| "is_engine_call (PcapGeterr p) = True"
| "is_engine_call (PcapClose p) = True"
| "is_engine_call e = False"

definition engine_calls :: "event list \<Rightarrow> event list" where
  "engine_calls tr = filter is_engine_call tr"

fun handler_calls :: "event list \<Rightarrow> (PacketHandler \<times> u_char list \<times> int) list" where
  "handler_calls [] = []"
| "handler_calls (HandlerCall f p n # tr) = (f, p, n) # handler_calls tr"
| "handler_calls (e # tr) = handler_calls tr"

fun unlocks :: "event list \<Rightarrow> (unlock_site \<times> sniffer) list" where
  "unlocks [] = []"
| "unlocks (Unlock u s # tr) = (u, s) # unlocks tr"
| "unlocks (e # tr) = unlocks tr"

text \<open>
  The capture engine is outside the repository. One run of it is described by what it
  answers: the handle \<open>pcap_open_live\<close> returns (null on failure), the frames
  \<open>pcap_loop\<close> hands to the callback (header pointer and bytes pointer, either of which
  may be null), the status \<open>pcap_loop\<close> returns at the end, and the string
  \<open>pcap_geterr\<close> returns.
\<close>

type_synonym frame = "pcap_pkthdr option \<times> u_char list option"

record engine =
  eng_open :: "pcap_t option"
  eng_frames :: "frame list"
  eng_status :: int
  eng_geterr :: "string option"

section \<open>The per-packet callback (lines 20 to 49)\<close>

text \<open>
  Lines 22 to 43: the pointer checks, the length check on the \<open>len\<close> field, the warning
  for a short capture, and the read of \<open>globalHandler\<close> under the mutex. The result is
  what was written out and, unless the callback has returned, the local \<open>handler\<close>
  together with the bytes and the header.
\<close>

definition callback_read ::
  "pcap_pkthdr option \<Rightarrow> u_char list option \<Rightarrow> sniffer \<Rightarrow>
     event list \<times> (PacketHandler option \<times> u_char list \<times> pcap_pkthdr) option" where
  "callback_read header packet s =
     (case header of
        None \<Rightarrow> ([], None)
      | Some h \<Rightarrow>
          (case packet of
             None \<Rightarrow> ([], None)
           | Some p \<Rightarrow>
               if \<not> is_valid_packet_length (sint (len h))
               then ([Stderr (BadPacketLength (sint (len h)))], None)
               else ((if caplen h < len h then [Stderr (ShortCapture (caplen h) (len h))] else [])
                       @ [Unlock U_callback s],
                     Some (globalHandler s, p, h))))"

text \<open>Lines 45 to 48: the handler, when there is one, receives \<open>(int)header->caplen\<close>.\<close>

definition callback_invoke ::
  "PacketHandler option \<times> u_char list \<times> pcap_pkthdr \<Rightarrow> event list" where
  "callback_invoke x =
     (case x of (handler, p, h) \<Rightarrow>
        (case handler of
           None \<Rightarrow> []
         | Some f \<Rightarrow> [HandlerCall f p (sint (caplen h))]))"

text \<open>
  The whole callback. It writes none of the three variables; the state is returned so
  that this is a statement about the function and not about its type. The handler is the
  caller's code: the model records the call and takes it not to call back into the
  sniffer.
\<close>

definition packet_callback ::
  "pcap_pkthdr option \<Rightarrow> u_char list option \<Rightarrow> sniffer \<Rightarrow> sniffer \<times> event list" where
  "packet_callback header packet s =
     (case callback_read header packet s of
        (out, None) \<Rightarrow> (s, out)
      | (out, Some x) \<Rightarrow> (s, out @ callback_invoke x))"

section \<open>start_sniffing (lines 79 to 161)\<close>

text \<open>Lines 80 to 95: the checks on the parameters, before the mutex is taken.\<close>

definition start_validate ::
  "string option \<Rightarrow> PacketHandler option \<Rightarrow> (SniffResult \<times> event list) + (string \<times> PacketHandler)" where
  "start_validate device handler =
     (case device of
        None \<Rightarrow> Inl (SNIFF_ERROR_NULL_PARAM, [Stderr NullDevice])
      | Some d \<Rightarrow>
          (case handler of
             None \<Rightarrow> Inl (SNIFF_ERROR_NULL_PARAM, [Stderr NullHandler])
           | Some f \<Rightarrow>
               if \<not> is_valid_device_name (Some d)
               then Inl (SNIFF_ERROR_INVALID_DEVICE, [Stderr BadDeviceName])
               else Inr (d, f)))"

text \<open>
  Lines 98 to 109: under the mutex, the test of \<open>is_running\<close> and the write of
  \<open>globalHandler\<close>. \<open>is_running\<close> is not written here.
\<close>

definition start_claim ::
  "PacketHandler \<Rightarrow> sniffer \<Rightarrow> SniffResult option \<times> sniffer \<times> event list" where
  "start_claim f s =
     (if is_running s
      then (Some SNIFF_ERROR_ALREADY_RUNNING, s, [Unlock U_already_running s, Stderr AlreadyActive])
      else (let s1 = s\<lparr>globalHandler := Some f\<rparr>
            in (None, s1, [Unlock U_claimed s1])))"

text \<open>
  Lines 112 to 127: \<open>handle\<close> receives the result of \<open>pcap_open_live\<close>, outside the
  mutex; when it is null the handler and the flag are reset under the mutex.
\<close>

definition start_open ::
  "string \<Rightarrow> engine \<Rightarrow> sniffer \<Rightarrow> SniffResult option \<times> sniffer \<times> event list" where
  "start_open d eng s =
     (let s1 = s\<lparr>handle := eng_open eng\<rparr> in
      if handle s1 = None
      then (let s2 = s1\<lparr>globalHandler := None, is_running := False\<rparr>
            in (Some SNIFF_ERROR_PCAP_OPEN, s2,
                [PcapOpenLive d, Unlock U_open_failed s2, Stderr (OpenFailed d)]))
      else (None, s1, [PcapOpenLive d]))"

text \<open>Lines 130 to 132.\<close>

definition start_mark :: "sniffer \<Rightarrow> sniffer \<times> event list" where
  "start_mark s = (let s1 = s\<lparr>is_running := True\<rparr> in (s1, [Unlock U_marked s1]))"

text \<open>
  \<open>pcap_loop\<close> (line 136), as the engine's contract describes it: it calls the callback
  once for each frame, on the calling thread, and returns the engine's status.
\<close>

fun deliver :: "frame list \<Rightarrow> sniffer \<Rightarrow> sniffer \<times> event list" where
  "deliver [] s = (s, [])"
| "deliver ((header, packet) # fs) s =
     (case packet_callback header packet s of
        (s1, out1) \<Rightarrow> (case deliver fs s1 of (s2, out2) \<Rightarrow> (s2, out1 @ out2)))"

definition pcap_loop :: "pcap_t option \<Rightarrow> engine \<Rightarrow> sniffer \<Rightarrow> int \<times> sniffer \<times> event list" where
  "pcap_loop p eng s =
     (case deliver (eng_frames eng) s of
        (s1, out) \<Rightarrow> (eng_status eng, s1, PcapLoop p # out))"

text \<open>Lines 139 to 160: the cleanup under the mutex and the result code.\<close>

definition start_teardown ::
  "engine \<Rightarrow> int \<Rightarrow> sniffer \<Rightarrow> SniffResult \<times> sniffer \<times> event list" where
  "start_teardown eng result s =
     (let out1 = (if result = - 1
                  then PcapGeterr (handle s) #
                         (case eng_geterr eng of None \<Rightarrow> [] | Some m \<Rightarrow> [Stderr (LoopError m)])
                  else []);
          (s1, out2) = (if handle s \<noteq> None
                        then (s\<lparr>handle := None\<rparr>, [PcapClose (handle s)])
                        else (s, []));
          s2 = s1\<lparr>globalHandler := None, is_running := False\<rparr>
      in (if result = 0 \<or> result = - 2 then SNIFF_OK else SNIFF_ERROR_PCAP_OPEN,
          s2, out1 @ out2 @ [Unlock U_teardown s2]))"

text \<open>The function as a whole, run by one thread with no other thread active.\<close>

definition start_sniffing ::
  "string option \<Rightarrow> PacketHandler option \<Rightarrow> engine \<Rightarrow> sniffer \<Rightarrow>
     SniffResult \<times> sniffer \<times> event list" where
  "start_sniffing device handler eng s =
     (case start_validate device handler of
        Inl (r, out) \<Rightarrow> (r, s, out)
      | Inr (d, f) \<Rightarrow>
          (case start_claim f s of
             (Some r, s1, out1) \<Rightarrow> (r, s1, out1)
           | (None, s1, out1) \<Rightarrow>
               (case start_open d eng s1 of
                  (Some r, s2, out2) \<Rightarrow> (r, s2, out1 @ out2)
                | (None, s2, out2) \<Rightarrow>
                    (case start_mark s2 of
                       (s3, out3) \<Rightarrow>
                         (case pcap_loop (handle s3) eng s3 of
                            (result, s4, out4) \<Rightarrow>
                              (case start_teardown eng result s4 of
                                 (r, s5, out5) \<Rightarrow>
                                   (r, s5, out1 @ out2 @ out3 @ out4 @ out5)))))))"

section \<open>stop_sniffing (lines 163 to 180) and is_sniffing_active (lines 182 to 187)\<close>

definition stop_sniffing :: "sniffer \<Rightarrow> SniffResult \<times> sniffer \<times> event list" where
  "stop_sniffing s =
     (if \<not> is_running s \<or> handle s = None
      then (SNIFF_ERROR_NOT_RUNNING, s, [Unlock U_stop_idle s])
      else (SNIFF_OK, s, [PcapBreakloop (handle s), Unlock U_stop s]))"

definition is_sniffing_active :: "sniffer \<Rightarrow> bool \<times> sniffer \<times> event list" where
  "is_sniffing_active s =
     (let active = (is_running s \<and> handle s \<noteq> None)
      in (active, s, [Unlock U_is_active s]))"

section \<open>Several threads\<close>

text \<open>
  A thread that has called \<open>start_sniffing\<close> is at one of the following places. Between
  two places it runs one block of the function: a critical section of the mutex, or
  statements that touch the shared variables outside it, run without preemption. Every
  run of this model is therefore a run of the program under some scheduling of its
  threads; the program has further runs, in which a thread is preempted inside a block.
\<close>

datatype thread =
    Entry "string option" "PacketHandler option"
      \<comment> \<open>about to execute line 80\<close>
  | Claimed string
      \<comment> \<open>past line 109, about to call pcap_open_live\<close>
  | Opened
      \<comment> \<open>past line 117 with a handle, about to execute line 130\<close>
  | Looping "frame list"
      \<comment> \<open>inside pcap_loop, with the frames still to come\<close>
  | Calling "PacketHandler option" "u_char list" pcap_pkthdr "frame list"
      \<comment> \<open>inside packet_callback, past line 43 with its local handler\<close>
  | Returned SniffResult

fun step :: "engine \<Rightarrow> thread \<Rightarrow> sniffer \<Rightarrow> thread \<times> sniffer \<times> event list" where
  "step eng (Entry device handler) s =
     (case start_validate device handler of
        Inl (r, out) \<Rightarrow> (Returned r, s, out)
      | Inr (d, f) \<Rightarrow>
          (case start_claim f s of
             (Some r, s1, out) \<Rightarrow> (Returned r, s1, out)
           | (None, s1, out) \<Rightarrow> (Claimed d, s1, out)))"
| "step eng (Claimed d) s =
     (case start_open d eng s of
        (Some r, s1, out) \<Rightarrow> (Returned r, s1, out)
      | (None, s1, out) \<Rightarrow> (Opened, s1, out))"
| "step eng Opened s =
     (case start_mark s of
        (s1, out) \<Rightarrow> (Looping (eng_frames eng), s1, out @ [PcapLoop (handle s1)]))"
| "step eng (Looping ((header, packet) # fs)) s =
     (case callback_read header packet s of
        (out, None) \<Rightarrow> (Looping fs, s, out)
      | (out, Some (f, p, h)) \<Rightarrow> (Calling f p h fs, s, out))"
| "step eng (Calling f p h fs) s = (Looping fs, s, callback_invoke (f, p, h))"
| "step eng (Looping []) s =
     (case start_teardown eng (eng_status eng) s of
        (r, s1, out) \<Rightarrow> (Returned r, s1, out))"
| "step eng (Returned r) s = (Returned r, s, [])"

text \<open>
  A configuration: the threads, each with the engine run it will see, the shared
  variables, and the events so far. A schedule names the thread that runs next.
\<close>

type_synonym config = "(thread \<times> engine) list \<times> sniffer \<times> event list"

fun run :: "nat list \<Rightarrow> config \<Rightarrow> config" where
  "run [] c = c"
| "run (i # sched) (ts, s, tr) =
     (if i < length ts
      then (case ts ! i of
              (t, eng) \<Rightarrow>
                (case step eng t s of
                   (t1, s1, out) \<Rightarrow> run sched (ts[i := (t1, eng)], s1, tr @ out)))
      else run sched (ts, s, tr))"

definition threads_of :: "config \<Rightarrow> thread list" where
  "threads_of c = map fst (fst c)"

definition state_of :: "config \<Rightarrow> sniffer" where
  "state_of c = fst (snd c)"

definition trace_of :: "config \<Rightarrow> event list" where
  "trace_of c = snd (snd c)"

text \<open>The events that follow the first release of the mutex by a teardown.\<close>

fun after_teardown :: "event list \<Rightarrow> event list" where
  "after_teardown [] = []"
| "after_teardown (Unlock U_teardown s # tr) = tr"
| "after_teardown (e # tr) = after_teardown tr"

text \<open>The invariant of the data model: handler and handle both present or both absent.\<close>

definition paired :: "sniffer \<Rightarrow> bool" where
  "paired s = ((globalHandler s = None) = (handle s = None))"

text \<open>
  What the teardown writes before it closes the handle (lines 141 to 147), named so that
  the trace of a whole call can be written down.
\<close>

definition geterr_events :: "engine \<Rightarrow> pcap_t option \<Rightarrow> event list" where
  "geterr_events eng p =
     (if eng_status eng = - 1
      then PcapGeterr p # (case eng_geterr eng of None \<Rightarrow> [] | Some m \<Rightarrow> [Stderr (LoopError m)])
      else [])"

section \<open>Concrete inputs\<close>

text \<open>A running session: handle 1, handler 7.\<close>

definition active :: sniffer where
  "active = \<lparr>handle = Some 1, globalHandler = Some 7, is_running = True\<rparr>"

text \<open>An engine run that opens handle 1, delivers no frame and is cancelled.\<close>

definition eng0 :: engine where
  "eng0 = \<lparr>eng_open = Some 1, eng_frames = [], eng_status = - 2, eng_geterr = None\<rparr>"

text \<open>
  Two threads that call \<open>start_sniffing\<close> on the same device with handlers 7 and 8 while
  nothing is running. The first thread's engine opens handle 1, delivers nothing and
  ends with an error; the second thread's engine opens handle 2, delivers one frame of
  three bytes and is cancelled.
\<close>

definition engA :: engine where
  "engA = \<lparr>eng_open = Some 1, eng_frames = [], eng_status = - 1,
            eng_geterr = Some ''read error''\<rparr>"

definition engB :: engine where
  "engB = \<lparr>eng_open = Some 2,
            eng_frames = [(Some \<lparr>caplen = 3, len = 3\<rparr>, Some [1, 2, 3])],
            eng_status = - 2, eng_geterr = None\<rparr>"

definition two_starts :: config where
  "two_starts =
     ([(Entry (Some ''en0'') (Some 7), engA), (Entry (Some ''en0'') (Some 8), engB)], idle, [])"

section \<open>Basic facts\<close>

subsection \<open>Characters and lengths\<close>

lemma of_char_alphabet:
  "(of_char ` set device_alphabet :: nat set)
     = {97..122} \<union> {65..90} \<union> {48..57} \<union> {46, 45, 95}"
  unfolding device_alphabet_def
  apply (simp add: atLeastAtMost_def)
  apply (auto; arith)
  done

lemma allowed_char_alphabet: "allowed_char c \<longleftrightarrow> c \<in> set device_alphabet"
proof -
  have "c \<in> set device_alphabet \<longleftrightarrow> (of_char c :: nat) \<in> of_char ` set device_alphabet"
    by (auto simp: inj_image_mem_iff inj_on_def)
  also have "\<dots> \<longleftrightarrow> allowed_char c"
    unfolding of_char_alphabet allowed_char_def less_eq_char_def
    apply simp
    apply (subst (1 2 3) of_char_eq_iff [where 'a = nat, symmetric])
    apply simp
    apply blast
    done
  finally show ?thesis by simp
qed

lemma scan_device_iff: "scan_device d \<longleftrightarrow> (\<forall>c \<in> set d. allowed_char c)"
  by (induction d) auto

lemma valid_name_en0: "is_valid_device_name (Some ''en0'')"
  by (simp add: is_valid_device_name_def allowed_char_def less_eq_char_def)




subsection \<open>Traces\<close>

lemma unlocks_append: "unlocks (a @ b) = unlocks a @ unlocks b"
  by (induction a rule: unlocks.induct) simp_all

lemma handler_calls_append: "handler_calls (a @ b) = handler_calls a @ handler_calls b"
  by (induction a rule: handler_calls.induct) simp_all

lemma unlocks_mem: "(u, s) \<in> set (unlocks tr) \<longleftrightarrow> Unlock u s \<in> set tr"
  by (induction tr rule: unlocks.induct) auto

lemma after_teardown_skip:
  "\<forall>s. Unlock U_teardown s \<notin> set a \<Longrightarrow> after_teardown (a @ b) = after_teardown b"
  by (induction a rule: after_teardown.induct) auto

lemma after_teardown_none:
  "\<forall>s. Unlock U_teardown s \<notin> set a \<Longrightarrow> after_teardown a = []"
  using after_teardown_skip [of a "[]"] by simp

lemma geterr_unlocks: "unlocks (geterr_events eng p) = []"
  by (simp add: geterr_events_def split: option.splits)

lemma geterr_no_teardown: "Unlock U_teardown s' \<notin> set (geterr_events eng p)"
  by (simp add: geterr_events_def split: option.splits)

lemma paired_idle: "paired idle"
  by (simp add: paired_def idle_def)

subsection \<open>The callback and the loop leave the three variables alone\<close>

lemma packet_callback_state: "fst (packet_callback header packet s) = s"
  by (simp add: packet_callback_def split: prod.splits option.splits)

lemma deliver_state: "fst (deliver fs s) = s"
proof (induction fs)
  case Nil
  show ?case by simp
next
  case (Cons fr fs)
  obtain header packet where fr: "fr = (header, packet)" by (cases fr)
  obtain s1 out1 where pc: "packet_callback header packet s = (s1, out1)"
    by (cases "packet_callback header packet s")
  then have "s1 = s" using packet_callback_state [of header packet s] by simp
  moreover obtain s2 out2 where dl: "deliver fs s = (s2, out2)" by (cases "deliver fs s")
  moreover have "s2 = s" using Cons dl by simp
  ultimately show ?case using fr pc by simp
qed

lemma deliver_eq: "deliver fs s = (s, snd (deliver fs s))"
  using deliver_state [of fs s] by (cases "deliver fs s") simp

lemma deliver_Cons_snd:
  "snd (deliver ((header, packet) # fs) s)
     = snd (packet_callback header packet s) @ snd (deliver fs s)"
proof -
  obtain out1 where pc: "packet_callback header packet s = (s, out1)"
    using packet_callback_state [of header packet s]
    by (cases "packet_callback header packet s") simp
  show ?thesis
    by (simp add: pc split: prod.splits)
qed

lemma callback_unlocks:
  "set (unlocks (snd (packet_callback header packet s))) \<subseteq> {(U_callback, s)}"
  by (auto simp: packet_callback_def callback_read_def callback_invoke_def unlocks_append
           split: option.splits if_splits)

lemma deliver_unlocks: "set (unlocks (snd (deliver fs s))) \<subseteq> {(U_callback, s)}"
proof (induction fs)
  case Nil
  show ?case by simp
next
  case (Cons fr fs)
  obtain header packet where fr: "fr = (header, packet)" by (cases fr)
  have "set (unlocks (snd (packet_callback header packet s))) \<subseteq> {(U_callback, s)}"
    by (rule callback_unlocks)
  with Cons show ?case
    by (simp add: fr deliver_Cons_snd unlocks_append del: deliver.simps)
qed

lemma deliver_no_teardown: "Unlock U_teardown s' \<notin> set (snd (deliver fs s))"
  using deliver_unlocks [of fs s] unlocks_mem [of U_teardown s' "snd (deliver fs s)"] by auto

subsection \<open>The four ways through start_sniffing\<close>

lemma start_validate_cases:
  obtains r out where "start_validate device handler = Inl (r, out)"
      "r = SNIFF_ERROR_NULL_PARAM \<or> r = SNIFF_ERROR_INVALID_DEVICE" "unlocks out = []"
  | d f where "start_validate device handler = Inr (d, f)" "device = Some d" "handler = Some f"
      "is_valid_device_name (Some d)"
  by (cases device; cases handler; cases "is_valid_device_name device")
     (auto simp: start_validate_def)

lemma start_validate_en0: "start_validate (Some ''en0'') (Some f) = Inr (''en0'', f)"
  by (simp add: start_validate_def valid_name_en0)

lemma start_sniffing_invalid:
  "start_validate device handler = Inl (r, out) \<Longrightarrow>
     start_sniffing device handler eng s = (r, s, out)"
  by (simp add: start_sniffing_def)

lemma start_sniffing_busy:
  "start_validate device handler = Inr (d, f) \<Longrightarrow> is_running s \<Longrightarrow>
     start_sniffing device handler eng s
       = (SNIFF_ERROR_ALREADY_RUNNING, s, [Unlock U_already_running s, Stderr AlreadyActive])"
  by (simp add: start_sniffing_def start_claim_def)

lemma start_sniffing_open_failed:
  "start_validate device handler = Inr (d, f) \<Longrightarrow> \<not> is_running s \<Longrightarrow> eng_open eng = None \<Longrightarrow>
     start_sniffing device handler eng s
       = (SNIFF_ERROR_PCAP_OPEN, idle,
          [Unlock U_claimed (s\<lparr>globalHandler := Some f\<rparr>), PcapOpenLive d,
           Unlock U_open_failed idle, Stderr (OpenFailed d)])"
  by (simp add: start_sniffing_def start_claim_def start_open_def Let_def idle_def)

lemma teardown_of_session:
  "start_teardown eng (eng_status eng) \<lparr>handle = Some p, globalHandler = g, is_running = b\<rparr>
     = (if eng_status eng = 0 \<or> eng_status eng = - 2 then SNIFF_OK else SNIFF_ERROR_PCAP_OPEN,
        idle, geterr_events eng (Some p) @ [PcapClose (Some p), Unlock U_teardown idle])"
  by (simp add: start_teardown_def geterr_events_def idle_def Let_def)

lemma start_sniffing_session:
  assumes "start_validate device handler = Inr (d, f)"
    and "\<not> is_running s"
    and "eng_open eng = Some p"
  shows "start_sniffing device handler eng s
       = (if eng_status eng = 0 \<or> eng_status eng = - 2 then SNIFF_OK else SNIFF_ERROR_PCAP_OPEN,
          idle,
          [Unlock U_claimed (s\<lparr>globalHandler := Some f\<rparr>), PcapOpenLive d,
           Unlock U_marked \<lparr>handle = Some p, globalHandler = Some f, is_running = True\<rparr>,
           PcapLoop (Some p)]
          @ snd (deliver (eng_frames eng) \<lparr>handle = Some p, globalHandler = Some f, is_running = True\<rparr>)
          @ geterr_events eng (Some p)
          @ [PcapClose (Some p), Unlock U_teardown idle])"
proof -
  let ?c = "s\<lparr>globalHandler := Some f\<rparr>"
  let ?a = "\<lparr>handle = Some p, globalHandler = Some f, is_running = True\<rparr>"
  have claim: "start_claim f s = (None, ?c, [Unlock U_claimed ?c])"
    using assms(2) by (simp add: start_claim_def Let_def)
  have opn: "start_open d eng ?c = (None, ?c\<lparr>handle := Some p\<rparr>, [PcapOpenLive d])"
    using assms(3) by (simp add: start_open_def)
  have mark: "start_mark (?c\<lparr>handle := Some p\<rparr>) = (?a, [Unlock U_marked ?a])"
    by (simp add: start_mark_def Let_def)
  have loop: "pcap_loop (handle ?a) eng ?a
               = (eng_status eng, ?a, PcapLoop (Some p) # snd (deliver (eng_frames eng) ?a))"
    unfolding pcap_loop_def by (subst deliver_eq) simp
  show ?thesis
    unfolding start_sniffing_def
    by (simp only: assms(1) claim opn mark loop teardown_of_session sum.case prod.case
          option.case append_Cons append_Nil append_assoc)
qed

text \<open>The result code does not depend on the frames the loop delivered.\<close>

lemma start_result_frames:
  "fst (start_sniffing device handler (eng\<lparr>eng_frames := fs\<rparr>) s0)
     = fst (start_sniffing device handler (eng\<lparr>eng_frames := fs'\<rparr>) s0)"
proof (cases device handler rule: start_validate_cases)
  case (1 r out)
  then show ?thesis by (simp add: start_sniffing_invalid)
next
  case (2 d f)
  show ?thesis
  proof (cases "is_running s0")
    case True
    with 2 show ?thesis by (simp add: start_sniffing_busy)
  next
    case False
    with 2 show ?thesis
      by (cases "eng_open eng")
         (simp_all add: start_sniffing_open_failed start_sniffing_session)
  qed
qed

subsection \<open>One thread alone\<close>

text \<open>
  A thread scheduled alone until it has returned does what \<open>start_sniffing\<close> does: the
  same result, the same final state, the same events in the same order.
\<close>

lemma run_stutter:
  "run (replicate k 0) ([(Returned r, eng)], s, tr) = ([(Returned r, eng)], s, tr)"
  by (induction k) simp_all

lemma run_one:
  "run (replicate (Suc n) 0) ([(t, eng)], s, tr)
     = (case step eng t s of
          (t1, s1, out) \<Rightarrow> run (replicate n 0) ([(t1, eng)], s1, tr @ out))"
  by simp

lemma run_loop_alone:
  "run (replicate (2 * length fs + 1 + k) 0) ([(Looping fs, eng)], s, tr)
     = (case start_teardown eng (eng_status eng) s of
          (r, s1, out) \<Rightarrow> ([(Returned r, eng)], s1, tr @ snd (deliver fs s) @ out))"
proof (induction fs arbitrary: k tr)
  case Nil
  have "run (replicate (Suc k) 0) ([(Looping [], eng)], s, tr)
     = (case start_teardown eng (eng_status eng) s of
          (r, s1, out) \<Rightarrow> ([(Returned r, eng)], s1, tr @ out))"
    unfolding run_one by (simp add: run_stutter split: prod.splits)
  then show ?case by simp
next
  case (Cons fr fs)
  obtain header packet where fr: "fr = (header, packet)" by (cases fr)
  obtain out pend where cr: "callback_read header packet s = (out, pend)"
    by (cases "callback_read header packet s")
  show ?case
  proof (cases pend)
    case None
    have pc: "snd (packet_callback header packet s) = out"
      using cr None by (simp add: packet_callback_def)
    have n: "2 * length (fr # fs) + 1 + k = Suc (2 * length fs + 1 + Suc k)"
      by simp
    have st: "step eng (Looping (fr # fs)) s = (Looping fs, s, out)"
      using fr cr None by simp
    have "run (replicate (2 * length (fr # fs) + 1 + k) 0) ([(Looping (fr # fs), eng)], s, tr)
            = run (replicate (2 * length fs + 1 + Suc k) 0) ([(Looping fs, eng)], s, tr @ out)"
      unfolding n run_one st by simp
    also have "\<dots> = (case start_teardown eng (eng_status eng) s of
          (r, s1, out') \<Rightarrow> ([(Returned r, eng)], s1, (tr @ out) @ snd (deliver fs s) @ out'))"
      by (rule Cons.IH)
    finally have e: "run (replicate (2 * length (fr # fs) + 1 + k) 0) ([(Looping (fr # fs), eng)], s, tr)
        = (case start_teardown eng (eng_status eng) s of
          (r, s1, out') \<Rightarrow> ([(Returned r, eng)], s1, tr @ snd (deliver (fr # fs) s) @ out'))"
      unfolding fr deliver_Cons_snd pc by simp
    show ?thesis by (rule e)
  next
    case (Some x)
    obtain f p h where x: "x = (f, p, h)" by (cases x)
    have pc: "snd (packet_callback header packet s) = out @ callback_invoke (f, p, h)"
      using cr Some x by (simp add: packet_callback_def)
    have n: "2 * length (fr # fs) + 1 + k = Suc (Suc (2 * length fs + 1 + k))"
      by simp
    have st: "step eng (Looping (fr # fs)) s = (Calling f p h fs, s, out)"
      using fr cr Some x by simp
    have st2: "step eng (Calling f p h fs) s = (Looping fs, s, callback_invoke (f, p, h))"
      by simp
    have "run (replicate (2 * length (fr # fs) + 1 + k) 0) ([(Looping (fr # fs), eng)], s, tr)
            = run (replicate (2 * length fs + 1 + k) 0)
                ([(Looping fs, eng)], s, (tr @ out) @ callback_invoke (f, p, h))"
      unfolding n run_one st prod.case st2 by simp
    also have "\<dots> = (case start_teardown eng (eng_status eng) s of
          (r, s1, out') \<Rightarrow> ([(Returned r, eng)], s1,
             ((tr @ out) @ callback_invoke (f, p, h)) @ snd (deliver fs s) @ out'))"
      by (rule Cons.IH)
    finally have e: "run (replicate (2 * length (fr # fs) + 1 + k) 0) ([(Looping (fr # fs), eng)], s, tr)
        = (case start_teardown eng (eng_status eng) s of
          (r, s1, out') \<Rightarrow> ([(Returned r, eng)], s1, tr @ snd (deliver (fr # fs) s) @ out'))"
      unfolding fr deliver_Cons_snd pc by simp
    show ?thesis by (rule e)
  qed
qed

lemma run_alone:
  "run (replicate (2 * length (eng_frames eng) + 4 + k) 0) ([(Entry device handler, eng)], s, [])
     = (case start_sniffing device handler eng s of
          (r, s1, tr) \<Rightarrow> ([(Returned r, eng)], s1, tr))"
proof -
  have n: "2 * length (eng_frames eng) + 4 + k
             = Suc (Suc (Suc (2 * length (eng_frames eng) + 1 + k)))"
    by simp
  show ?thesis
  proof (cases device handler rule: start_validate_cases)
    case (1 r out)
    have st: "step eng (Entry device handler) s = (Returned r, s, out)"
      using 1 by simp
    show ?thesis
      unfolding n run_one st using 1 by (simp add: start_sniffing_invalid run_stutter)
  next
    case (2 d f)
    show ?thesis
    proof (cases "is_running s")
      case True
      have st: "step eng (Entry device handler) s
                  = (Returned SNIFF_ERROR_ALREADY_RUNNING, s,
                     [Unlock U_already_running s, Stderr AlreadyActive])"
        using 2 True by (simp add: start_claim_def)
      show ?thesis
        unfolding n run_one st using 2 True by (simp add: start_sniffing_busy run_stutter)
    next
      case False
      let ?c = "s\<lparr>globalHandler := Some f\<rparr>"
      have st: "step eng (Entry device handler) s = (Claimed d, ?c, [Unlock U_claimed ?c])"
        using 2 False by (simp add: start_claim_def Let_def)
      show ?thesis
      proof (cases "eng_open eng")
        case None
        have st2: "step eng (Claimed d) ?c
                     = (Returned SNIFF_ERROR_PCAP_OPEN, idle,
                        [PcapOpenLive d, Unlock U_open_failed idle, Stderr (OpenFailed d)])"
          using None by (simp add: start_open_def Let_def idle_def)
        show ?thesis
          unfolding n run_one st prod.case st2
          using 2 False None by (simp add: start_sniffing_open_failed run_stutter)
      next
        case (Some p)
        let ?a = "\<lparr>handle = Some p, globalHandler = Some f, is_running = True\<rparr>"
        have st2: "step eng (Claimed d) ?c = (Opened, ?c\<lparr>handle := Some p\<rparr>, [PcapOpenLive d])"
          using Some by (simp add: start_open_def Let_def)
        have st3: "step eng Opened (?c\<lparr>handle := Some p\<rparr>)
                     = (Looping (eng_frames eng), ?a, [Unlock U_marked ?a, PcapLoop (Some p)])"
          by (simp add: start_mark_def Let_def)
        show ?thesis
          unfolding n run_one st prod.case st2 st3 run_loop_alone teardown_of_session
          using 2 False Some by (simp add: start_sniffing_session)
      qed
    qed
  qed
qed

text \<open>
  In a call that runs alone, no handler call follows the teardown: the callback runs
  only inside \<open>pcap_loop\<close>, on the thread that tears down after the loop has returned.
\<close>

lemma lone_start_no_late_delivery:
  "handler_calls (after_teardown (snd (snd (start_sniffing device handler eng s)))) = []"
proof (cases device handler rule: start_validate_cases)
  case (1 r out)
  have "\<forall>s. Unlock U_teardown s \<notin> set out"
    using 1(3) unlocks_mem [of U_teardown _ out] by simp
  then show ?thesis
    using 1 by (simp add: start_sniffing_invalid after_teardown_none)
next
  case (2 d f)
  show ?thesis
  proof (cases "is_running s")
    case True
    with 2 show ?thesis by (simp add: start_sniffing_busy)
  next
    case False
    show ?thesis
    proof (cases "eng_open eng")
      case None
      with 2 False show ?thesis by (simp add: start_sniffing_open_failed)
    next
      case (Some p)
      let ?a = "\<lparr>handle = Some p, globalHandler = Some f, is_running = True\<rparr>"
      have "after_teardown (snd (deliver (eng_frames eng) ?a) @ geterr_events eng (Some p)
               @ [PcapClose (Some p), Unlock U_teardown idle]) = []"
        by (simp add: after_teardown_skip deliver_no_teardown geterr_no_teardown)
      with 2 False Some show ?thesis
        by (simp add: start_sniffing_session)
    qed
  qed
qed

section \<open>The claims\<close>

subsection \<open>C1: two concurrent calls of start\<close>

text \<open>
  C1 says that of two concurrent calls of start at most one opens the engine and
  becomes the session, and that the other returns ALREADY_RUNNING without recording a
  handler or touching the engine. The program tests \<open>is_running\<close> in the critical
  section of lines 98 to 109 but sets it only at line 131, after \<open>pcap_open_live\<close>. In
  the schedule below the first thread runs lines 98 to 109, then the second thread does:
  it still reads \<open>is_running = false\<close>. Both threads record their handler, both open the
  engine and both are inside \<open>pcap_loop\<close> at the same time; run to their ends, neither
  call returns ALREADY_RUNNING.
\<close>

theorem double_start_both_open:
  "threads_of (run [0, 1, 0, 0, 1, 1] two_starts)
     = [Looping [], Looping [(Some \<lparr>caplen = 3, len = 3\<rparr>, Some [1, 2, 3])]]
   \<and> engine_calls (trace_of (run [0, 1, 0, 0, 1, 1] two_starts))
     = [PcapOpenLive ''en0'', PcapLoop (Some 1), PcapOpenLive ''en0'', PcapLoop (Some 2)]
   \<and> unlocks (trace_of (run [0, 1] two_starts))
     = [(U_claimed, \<lparr>handle = None, globalHandler = Some 7, is_running = False\<rparr>),
        (U_claimed, \<lparr>handle = None, globalHandler = Some 8, is_running = False\<rparr>)]
   \<and> threads_of (run [0, 1, 0, 0, 1, 1, 1, 1, 0, 1] two_starts)
     = [Returned SNIFF_ERROR_PCAP_OPEN, Returned SNIFF_OK]"
  by code_simp

subsection \<open>C2: handler and handle together\<close>

text \<open>
  C2, as amended: when handler and handle are both present or both absent before a
  call of start, stop or is_active that runs alone, they are so after the call, and
  they are so at every release of the mutex during the call except the release at line
  109, which ends the section where start records the handler: there the handler is
  present and the handle is not, until \<open>pcap_open_live\<close> has returned.
\<close>

theorem handler_handle_paired:
  assumes "paired s"
  shows "paired (fst (snd (start_sniffing device handler eng s)))
       \<and> (\<forall>(u, s') \<in> set (unlocks (snd (snd (start_sniffing device handler eng s)))).
             u \<noteq> U_claimed \<longrightarrow> paired s')
       \<and> paired (fst (snd (stop_sniffing s)))
       \<and> (\<forall>(u, s') \<in> set (unlocks (snd (snd (stop_sniffing s)))). paired s')
       \<and> paired (fst (snd (is_sniffing_active s)))
       \<and> (\<forall>(u, s') \<in> set (unlocks (snd (snd (is_sniffing_active s)))). paired s')"
proof -
  have start: "paired (fst (snd (start_sniffing device handler eng s)))
       \<and> (\<forall>(u, s') \<in> set (unlocks (snd (snd (start_sniffing device handler eng s)))).
             u \<noteq> U_claimed \<longrightarrow> paired s')"
  proof (cases device handler rule: start_validate_cases)
    case (1 r out)
    then show ?thesis
      using assms by (simp add: start_sniffing_invalid)
  next
    case (2 d f)
    show ?thesis
    proof (cases "is_running s")
      case True
      with 2 assms show ?thesis
        by (simp add: start_sniffing_busy)
    next
      case False
      show ?thesis
      proof (cases "eng_open eng")
        case None
        with 2 False show ?thesis
          by (simp add: start_sniffing_open_failed paired_idle)
      next
        case (Some p)
        let ?a = "\<lparr>handle = Some p, globalHandler = Some f, is_running = True\<rparr>"
        have a: "paired ?a" by (simp add: paired_def)
        have "\<forall>(u, s') \<in> set (unlocks (snd (deliver (eng_frames eng) ?a))).
                u \<noteq> U_claimed \<longrightarrow> paired s'"
          using deliver_unlocks [of "eng_frames eng" ?a] a by auto
        with 2 False Some a show ?thesis
          by (simp add: start_sniffing_session unlocks_append geterr_unlocks paired_idle)
      qed
    qed
  qed
  have rest: "paired (fst (snd (stop_sniffing s)))
       \<and> (\<forall>(u, s') \<in> set (unlocks (snd (snd (stop_sniffing s)))). paired s')
       \<and> paired (fst (snd (is_sniffing_active s)))
       \<and> (\<forall>(u, s') \<in> set (unlocks (snd (snd (is_sniffing_active s)))). paired s')"
    using assms by (simp add: stop_sniffing_def is_sniffing_active_def)
  from start rest show ?thesis by simp
qed

theorem handler_handle_paired_witness:
  "paired idle
   \<and> paired (fst (snd (start_sniffing (Some ''en0'') (Some 7) eng0 idle)))
   \<and> (U_marked, active) \<in> set (unlocks (snd (snd (start_sniffing (Some ''en0'') (Some 7) eng0 idle))))
   \<and> paired active"
  using handler_handle_paired [where s = idle and device = "Some ''en0''" and handler = "Some 7"
      and eng = eng0]
  by (simp add: paired_idle start_sniffing_session [OF start_validate_en0, where p = 1] idle_def
        eng0_def active_def paired_def)

text \<open>
  C2 as stated fails at the release of line 109: a call of start on the idle sniffer
  makes the state with handler 7 and no handle visible there.
\<close>

theorem handler_without_handle_counterexample:
  "(U_claimed, \<lparr>handle = None, globalHandler = Some 7, is_running = False\<rparr>)
      \<in> set (unlocks (snd (snd (start_sniffing (Some ''en0'') (Some 7) eng0 idle))))
   \<and> \<not> paired \<lparr>handle = None, globalHandler = Some 7, is_running = False\<rparr>"
  by (simp add: start_sniffing_session [OF start_validate_en0, where p = 1] idle_def
        eng0_def paired_def)

subsection \<open>C3: the length gate of the callback\<close>



subsection \<open>C4: truncated frames\<close>

text \<open>
  C4, as amended: a frame whose captured length is smaller than its claimed length, with
  the claimed length between 1 and 65536, is not dropped. The callback writes the
  warning, leaves the state unchanged and calls the handler once with the captured
  length; the loop goes on with the frames that follow, and the result code of start is
  the one it would be without the frame.
\<close>

theorem truncated_frame_delivered:
  assumes "caplen h < len h"
    and "is_valid_packet_length (sint (len h))"
    and "globalHandler s = Some f"
  shows "packet_callback (Some h) (Some p) s
           = (s, [Stderr (ShortCapture (caplen h) (len h)), Unlock U_callback s,
                  HandlerCall f p (sint (caplen h))])
       \<and> deliver ((Some h, Some p) # fs) s
           = (fst (deliver fs s),
              [Stderr (ShortCapture (caplen h) (len h)), Unlock U_callback s,
               HandlerCall f p (sint (caplen h))] @ snd (deliver fs s))
       \<and> fst (start_sniffing device handler (eng\<lparr>eng_frames := (Some h, Some p) # fs\<rparr>) s0)
           = fst (start_sniffing device handler (eng\<lparr>eng_frames := fs\<rparr>) s0)"
proof (intro conjI)
  show pc: "packet_callback (Some h) (Some p) s
           = (s, [Stderr (ShortCapture (caplen h) (len h)), Unlock U_callback s,
                  HandlerCall f p (sint (caplen h))])"
    using assms by (simp add: packet_callback_def callback_read_def callback_invoke_def)
  show "deliver ((Some h, Some p) # fs) s
           = (fst (deliver fs s),
              [Stderr (ShortCapture (caplen h) (len h)), Unlock U_callback s,
               HandlerCall f p (sint (caplen h))] @ snd (deliver fs s))"
    using pc by (simp split: prod.splits)
  show "fst (start_sniffing device handler (eng\<lparr>eng_frames := (Some h, Some p) # fs\<rparr>) s0)
           = fst (start_sniffing device handler (eng\<lparr>eng_frames := fs\<rparr>) s0)"
    by (rule start_result_frames)
qed

theorem truncated_frame_delivered_witness:
  "packet_callback (Some \<lparr>caplen = 60, len = 100\<rparr>) (Some [1, 2, 3]) active
     = (active, [Stderr (ShortCapture 60 100), Unlock U_callback active, HandlerCall 7 [1, 2, 3] 60])
   \<and> fst (start_sniffing (Some ''en0'') (Some 7)
            (eng0\<lparr>eng_frames := [(Some \<lparr>caplen = 60, len = 100\<rparr>, Some [1, 2, 3])]\<rparr>) idle) = SNIFF_OK"
proof -
  have ok: "fst (start_sniffing (Some ''en0'') (Some 7) (eng0\<lparr>eng_frames := []\<rparr>) idle) = SNIFF_OK"
    by (simp add: start_sniffing_session [OF start_validate_en0, where p = 1] idle_def eng0_def)
  have a: "caplen \<lparr>caplen = 60, len = 100\<rparr> < len \<lparr>caplen = 60, len = 100\<rparr>"
    by simp
  have b: "is_valid_packet_length (sint (len \<lparr>caplen = 60, len = 100\<rparr>))"
    by (simp add: is_valid_packet_length_def MAX_PACKET_SIZE_def)
  have c: "globalHandler active = Some 7"
    by (simp add: active_def)
  show ?thesis
    using truncated_frame_delivered [OF a b c, where p = "[1, 2, 3]" and fs = "[]"
        and device = "Some ''en0''" and handler = "Some 7" and eng = eng0 and ?s0.0 = idle] ok
    by simp
qed

text \<open>
  C4 as stated fails: for a frame of 100 claimed and 60 captured bytes the handler is
  called, with length 60.
\<close>

theorem truncated_frame_counterexample:
  "handler_calls (snd (packet_callback (Some \<lparr>caplen = 60, len = 100\<rparr>) (Some [1, 2, 3]) active))
     = [(7, [1, 2, 3], 60)]"
  by (simp add: packet_callback_def callback_read_def callback_invoke_def active_def
        is_valid_packet_length_def MAX_PACKET_SIZE_def)

subsection \<open>C5: device names\<close>

text \<open>
  C5: a device string is accepted if and only if its length is between 1 and 64 and
  every character is an ASCII letter, a digit, a dot, a dash or an underscore. The
  function reads its argument and writes nothing, so it is a function of the string
  alone.
\<close>

theorem device_name_accepted_iff:
  "is_valid_device_name (Some d) \<longleftrightarrow>
     1 \<le> length d \<and> length d \<le> 64 \<and> (\<forall>c \<in> set d. c \<in> set device_alphabet)"
  by (cases d) (auto simp: is_valid_device_name_def Let_def scan_device_iff allowed_char_alphabet)

theorem device_name_accepted_iff_witness:
  "is_valid_device_name (Some ''en0'') \<and> \<not> is_valid_device_name (Some [])
     \<and> \<not> is_valid_device_name (Some ''eth0; rm -rf'')
     \<and> \<not> is_valid_device_name (Some (replicate 65 CHR ''a''))"
  using device_name_accepted_iff [of "''en0''"] device_name_accepted_iff [of "[]"]
    device_name_accepted_iff [of "''eth0; rm -rf''"]
    device_name_accepted_iff [of "replicate 65 CHR ''a''"]
  by (simp add: device_alphabet_def)

subsection \<open>C6: the state after start has returned\<close>

text \<open>
  C6, as amended: a call of start made while nothing is running (the state is idle)
  leaves the state idle when it returns, by whichever path: is_active is false, and the
  same call made again is not refused as already running; with a valid device and a
  handler it goes on to open the engine. A call of start made while a session is running
  returns NULL_PARAM, INVALID_DEVICE or ALREADY_RUNNING and leaves the state as it was,
  so the session stays active.
\<close>

theorem start_returns_to_idle:
  "fst (snd (start_sniffing device handler eng idle)) = idle
   \<and> \<not> fst (is_sniffing_active (fst (snd (start_sniffing device handler eng idle))))
   \<and> fst (start_sniffing device handler eng2 (fst (snd (start_sniffing device handler eng idle))))
        \<noteq> SNIFF_ERROR_ALREADY_RUNNING
   \<and> (is_valid_device_name (Some d) \<longrightarrow>
        PcapOpenLive d \<in> set (snd (snd (start_sniffing (Some d) (Some f) eng2
            (fst (snd (start_sniffing (Some d) (Some f) eng idle)))))))
   \<and> (is_running s \<longrightarrow>
        fst (snd (start_sniffing device handler eng s)) = s
      \<and> fst (start_sniffing device handler eng s)
          \<in> {SNIFF_ERROR_NULL_PARAM, SNIFF_ERROR_INVALID_DEVICE, SNIFF_ERROR_ALREADY_RUNNING})"
proof -
  have nr: "\<not> is_running idle" by (simp add: idle_def)
  have home: "fst (snd (start_sniffing dev hnd en idle)) = idle" for dev hnd en
  proof (cases dev hnd rule: start_validate_cases)
    case (1 r out)
    then show ?thesis by (simp add: start_sniffing_invalid)
  next
    case (2 d f)
    then show ?thesis using nr
      by (cases "eng_open en") (simp_all add: start_sniffing_open_failed start_sniffing_session)
  qed
  have again: "fst (start_sniffing dev hnd en idle) \<noteq> SNIFF_ERROR_ALREADY_RUNNING" for dev hnd en
  proof (cases dev hnd rule: start_validate_cases)
    case (1 r out)
    then show ?thesis by (auto simp: start_sniffing_invalid)
  next
    case (2 d f)
    then show ?thesis using nr
      by (cases "eng_open en") (simp_all add: start_sniffing_open_failed start_sniffing_session)
  qed
  have opens: "PcapOpenLive d \<in> set (snd (snd (start_sniffing (Some d) (Some f) en idle)))"
    if "is_valid_device_name (Some d)" for en
  proof -
    have v: "start_validate (Some d) (Some f) = Inr (d, f)"
      using that by (simp add: start_validate_def)
    show ?thesis using nr
      by (cases "eng_open en")
         (simp_all add: start_sniffing_open_failed [OF v] start_sniffing_session [OF v])
  qed
  have busy: "fst (snd (start_sniffing device handler eng s)) = s
      \<and> fst (start_sniffing device handler eng s)
          \<in> {SNIFF_ERROR_NULL_PARAM, SNIFF_ERROR_INVALID_DEVICE, SNIFF_ERROR_ALREADY_RUNNING}"
    if "is_running s"
  proof (cases device handler rule: start_validate_cases)
    case (1 r out)
    then show ?thesis by (auto simp: start_sniffing_invalid)
  next
    case (2 d f)
    then show ?thesis using that by (simp add: start_sniffing_busy)
  qed
  have "\<not> fst (is_sniffing_active idle)"
    by (simp add: is_sniffing_active_def idle_def)
  with home again opens busy show ?thesis by simp
qed

theorem start_returns_to_idle_witness:
  "is_valid_device_name (Some ''en0'')
   \<and> PcapOpenLive ''en0'' \<in> set (snd (snd (start_sniffing (Some ''en0'') (Some 7) eng0
            (fst (snd (start_sniffing (Some ''en0'') (Some 7) eng0 idle))))))
   \<and> is_running active
   \<and> fst (snd (start_sniffing (Some ''en0'') (Some 7) eng0 active)) = active"
proof -
  have r: "is_running active"
    by (simp add: active_def)
  note t = start_returns_to_idle [where d = "''en0''" and f = 7 and eng = eng0 and ?eng2.0 = eng0
      and s = active and device = "Some ''en0''" and handler = "Some 7"]
  from t valid_name_en0 r show ?thesis by blast
qed

text \<open>
  C6 as stated fails on the path it names "already running": a call of start made while
  a session is running returns ALREADY_RUNNING, is_active is still true after it, and the
  same call made again is refused again.
\<close>

theorem start_while_active_counterexample:
  "fst (start_sniffing (Some ''en0'') (Some 7) eng0 active) = SNIFF_ERROR_ALREADY_RUNNING
   \<and> fst (is_sniffing_active (fst (snd (start_sniffing (Some ''en0'') (Some 7) eng0 active))))
   \<and> fst (start_sniffing (Some ''en0'') (Some 7) eng0
            (fst (snd (start_sniffing (Some ''en0'') (Some 7) eng0 active))))
        = SNIFF_ERROR_ALREADY_RUNNING"
  by (simp add: start_sniffing_busy [OF start_validate_en0] active_def is_sniffing_active_def)

subsection \<open>C7: stop\<close>

text \<open>
  C7: when nothing is running (the flag is false or there is no handle), stop returns
  NOT_RUNNING, calls nothing of the engine and changes nothing. When a session is
  running, stop returns OK, its only call into the engine is \<open>pcap_breakloop\<close> on the
  handle, and the handle, the handler and the flag are what they were: the handle is
  not closed.
\<close>

theorem stop_frame:
  "(\<not> is_running s \<or> handle s = None \<longrightarrow>
       fst (stop_sniffing s) = SNIFF_ERROR_NOT_RUNNING
     \<and> fst (snd (stop_sniffing s)) = s
     \<and> engine_calls (snd (snd (stop_sniffing s))) = []
     \<and> handler_calls (snd (snd (stop_sniffing s))) = [])
   \<and> (is_running s \<and> handle s \<noteq> None \<longrightarrow>
       fst (stop_sniffing s) = SNIFF_OK
     \<and> fst (snd (stop_sniffing s)) = s
     \<and> engine_calls (snd (snd (stop_sniffing s))) = [PcapBreakloop (handle s)]
     \<and> handler_calls (snd (snd (stop_sniffing s))) = [])"
  by (simp add: stop_sniffing_def engine_calls_def)

theorem stop_frame_witness:
  "fst (stop_sniffing idle) = SNIFF_ERROR_NOT_RUNNING
   \<and> fst (snd (stop_sniffing idle)) = idle
   \<and> engine_calls (snd (snd (stop_sniffing idle))) = []
   \<and> fst (stop_sniffing active) = SNIFF_OK
   \<and> fst (snd (stop_sniffing active)) = active
   \<and> engine_calls (snd (snd (stop_sniffing active))) = [PcapBreakloop (Some 1)]"
  using stop_frame [of idle] stop_frame [of active]
  by (simp add: idle_def active_def)

subsection \<open>C8: no delivery after teardown\<close>

text \<open>
  C8 says that once the session is back to idle the handler is never called again. For
  a call of start that runs alone this holds (\<open>lone_start_no_late_delivery\<close>). It fails
  when two calls overlap, which the late write of \<open>is_running\<close> allows (see C1): in the
  schedule below the second thread's callback has read handler 7 at line 42 and is
  about to call it when the first thread, whose loop has ended, tears down. The first
  call has returned and the state is idle, is_active is false, no handler has been
  called so far, and then handler 7 is called with the frame.
\<close>

theorem delivery_after_teardown:
  "threads_of (run [1, 0, 0, 0, 1, 1, 1, 0] two_starts) ! 0 = Returned SNIFF_ERROR_PCAP_OPEN
   \<and> state_of (run [1, 0, 0, 0, 1, 1, 1, 0] two_starts) = idle
   \<and> \<not> fst (is_sniffing_active (state_of (run [1, 0, 0, 0, 1, 1, 1, 0] two_starts)))
   \<and> handler_calls (trace_of (run [1, 0, 0, 0, 1, 1, 1, 0] two_starts)) = []
   \<and> handler_calls (after_teardown (trace_of (run [1, 0, 0, 0, 1, 1, 1, 0, 1] two_starts)))
     = [(7, [1, 2, 3], 3)]"
  by code_simp

subsection \<open>C9: failure to open\<close>

text \<open>
  C9: when the device name is valid, the handler is not null, nothing is running and
  \<open>pcap_open_live\<close> returns null, start returns PCAP_OPEN and leaves the state idle: the
  handler it had recorded (visible at the release of line 109) is cleared, the flag is
  false and there is no handle.
\<close>

theorem open_failure_rolls_back:
  assumes "is_valid_device_name (Some d)"
    and "\<not> is_running s"
    and "eng_open eng = None"
  shows "start_sniffing (Some d) (Some f) eng s
           = (SNIFF_ERROR_PCAP_OPEN, idle,
              [Unlock U_claimed (s\<lparr>globalHandler := Some f\<rparr>), PcapOpenLive d,
               Unlock U_open_failed idle, Stderr (OpenFailed d)])"
  using assms
  by (simp add: start_sniffing_def start_validate_def start_claim_def start_open_def
        Let_def idle_def)

theorem open_failure_rolls_back_witness:
  "start_sniffing (Some ''en0'') (Some 7) (eng0\<lparr>eng_open := None\<rparr>) idle
     = (SNIFF_ERROR_PCAP_OPEN, idle,
        [Unlock U_claimed (idle\<lparr>globalHandler := Some 7\<rparr>), PcapOpenLive ''en0'',
         Unlock U_open_failed idle, Stderr (OpenFailed ''en0'')])"
  using open_failure_rolls_back [where d = "''en0''" and s = idle
      and eng = "eng0\<lparr>eng_open := None\<rparr>" and f = 7]
  by (simp add: valid_name_en0 idle_def eng0_def)

subsection \<open>C10: null pointers from the engine\<close>

text \<open>
  C10: when the engine hands the callback a null header pointer or a null bytes
  pointer, the callback returns at once: nothing is written, the handler is not called
  and the state is what it was.
\<close>

theorem null_pointer_frame_ignored:
  "header = None \<or> packet = None \<Longrightarrow> packet_callback header packet s = (s, [])"
  by (auto simp: packet_callback_def callback_read_def split: option.splits)

theorem null_pointer_frame_ignored_witness:
  "packet_callback None (Some [1]) active = (active, [])
   \<and> packet_callback (Some \<lparr>caplen = 1, len = 1\<rparr>) None active = (active, [])"
  using null_pointer_frame_ignored [of None "Some [1]" active]
    null_pointer_frame_ignored [of "Some \<lparr>caplen = 1, len = 1\<rparr>" None active]
  by simp

end
